theory Spec2Isabelle
  imports Main "HOL-Library.AList" "HOL-Library.Char_ord" "HOL-Library.List_Lexorder"
begin

section \<open>Python strings and dictionaries\<close>

text \<open>
  The pipeline of \<^verbatim>\<open>scrape_data.py\<close> and \<^verbatim>\<open>load_data.py\<close> works on Python
  \<^verbatim>\<open>str\<close> values. A \<^typ>\<open>char\<close> stands for one code point below 256, so a
  \<^typ>\<open>string\<close> is a Python string over that range and \<^const>\<open>length\<close> counts what
  \<^verbatim>\<open>len\<close> counts. The library methods the source calls are written out below with the
  behaviour CPython gives them on these code points.
\<close>

datatype py_error = ValueError | KeyError | SettingWithEnlargement

text \<open>\<^verbatim>\<open>str.isspace\<close> on one character: TAB..CR, FS..US, SPACE, NEL and NBSP.\<close>

definition py_isspace :: "char \<Rightarrow> bool" where
  "py_isspace c =
     (let n = (of_char c :: nat)
      in (9 \<le> n \<and> n \<le> 13) \<or> (28 \<le> n \<and> n \<le> 32) \<or> n = 133 \<or> n = 160)"

text \<open>The ten decimal digits, the only characters \<^verbatim>\<open>int\<close> reads as digits.\<close>

definition is_decimal :: "char \<Rightarrow> bool" where
  "is_decimal c = (let n = (of_char c :: nat) in 48 \<le> n \<and> n \<le> 57)"

text \<open>
  \<^verbatim>\<open>str.isdigit\<close> accepts every character whose Unicode numeric type is Digit or
  Decimal: below 256 these are the ten decimal digits and the superscripts
  U+00B2, U+00B3 and U+00B9. The string must be non-empty.
\<close>

definition isdigit_char :: "char \<Rightarrow> bool" where
  "isdigit_char c =
     (let n = (of_char c :: nat) in (48 \<le> n \<and> n \<le> 57) \<or> n = 178 \<or> n = 179 \<or> n = 185)"

definition py_isdigit :: "string \<Rightarrow> bool" where
  "py_isdigit s = (s \<noteq> [] \<and> list_all isdigit_char s)"

definition digit_value :: "char \<Rightarrow> int" where
  "digit_value c = int (of_char c) - 48"

text \<open>
  \<^verbatim>\<open>int(s)\<close> for a string without sign, blanks or underscores (the only strings the
  parser passes are those \<^verbatim>\<open>isdigit\<close> accepts): the decimal value, and
  \<^verbatim>\<open>ValueError\<close> when a character is not a decimal digit. The interpreter's
  configurable limit on the number of digits is not part of the model.
\<close>

definition py_int :: "string \<Rightarrow> py_error + int" where
  "py_int s =
     (if s \<noteq> [] \<and> list_all is_decimal s
      then Inr (fold (\<lambda>c n. 10 * n + digit_value c) s 0)
      else Inl ValueError)"

text \<open>\<^verbatim>\<open>s.startswith(p)\<close> and the substring test \<^verbatim>\<open>sub in s\<close>.\<close>

definition py_startswith :: "string \<Rightarrow> string \<Rightarrow> bool" where
  "py_startswith p s = (take (length p) s = p)"

fun py_contains :: "string \<Rightarrow> string \<Rightarrow> bool" where
  "py_contains sub [] = (sub = [])"
| "py_contains sub (c # cs) = (py_startswith sub (c # cs) \<or> py_contains sub cs)"

text \<open>
  \<^verbatim>\<open>s.split(sep)\<close> for a non-empty separator: the string is scanned from the left, each
  occurrence of the separator closes the current part, and scanning resumes behind it.
  The result always has at least one part. (Python rejects an empty separator; every call
  site passes a literal of three to five characters.)
\<close>

fun py_split :: "string \<Rightarrow> string \<Rightarrow> string list" where
  "py_split sep [] = [[]]"
| "py_split sep (c # cs) =
     (if py_startswith sep (c # cs) then [] # py_split sep (drop (length sep - 1) cs)
      else (case py_split sep cs of [] \<Rightarrow> [[c]] | p # ps \<Rightarrow> (c # p) # ps))"

text \<open>\<^verbatim>\<open>s.strip()\<close> removes the blanks at both ends.\<close>

definition py_strip :: "string \<Rightarrow> string" where
  "py_strip s = rev (dropWhile py_isspace (rev (dropWhile py_isspace s)))"

text \<open>
  \<^verbatim>\<open>s.split()\<close> without a separator cuts at runs of blanks and returns no empty
  token. The first argument is the token being read, in reverse.
\<close>

fun split_ws_from :: "string \<Rightarrow> string \<Rightarrow> string list" where
  "split_ws_from cur [] = (if cur = [] then [] else [rev cur])"
| "split_ws_from cur (c # cs) =
     (if py_isspace c
      then (if cur = [] then split_ws_from [] cs else rev cur # split_ws_from [] cs)
      else split_ws_from (c # cur) cs)"

definition py_split_ws :: "string \<Rightarrow> string list" where
  "py_split_ws s = split_ws_from [] s"

text \<open>
  A Python \<^verbatim>\<open>dict\<close> keeps its keys in insertion order, and assigning to a key that is
  present keeps the key's position: an association list with distinct keys under
  \<^const>\<open>AList.update\<close>. \<^verbatim>\<open>d.get(k, default)\<close> and the constructors
  \<^verbatim>\<open>dict(pairs)\<close> / \<^verbatim>\<open>{k: v for ...}\<close>, which assign the pairs one after the other:
\<close>

definition dict_get :: "('k \<times> 'v) list \<Rightarrow> 'k \<Rightarrow> 'v \<Rightarrow> 'v" where
  "dict_get d k dflt = (case map_of d k of None \<Rightarrow> dflt | Some v \<Rightarrow> v)"

definition dict_of_pairs :: "('k \<times> 'v) list \<Rightarrow> ('k \<times> 'v) list" where
  "dict_of_pairs ps = fold (\<lambda>(k, v) d. AList.update k v d) ps []"

section \<open>The equation parser (\<^verbatim>\<open>parse_equation\<close>)\<close>

type_synonym stoich = "(string \<times> int) list"

text \<open>
  The two unpacking assignments \<^verbatim>\<open>lhs, rhs = equation.split(...)\<close>: anything but
  exactly two parts raises \<^verbatim>\<open>ValueError\<close>.
\<close>

definition unpack2 :: "string list \<Rightarrow> py_error + (string \<times> string)" where
  "unpack2 parts = (case parts of [lhs, rhs] \<Rightarrow> Inr (lhs, rhs) | _ \<Rightarrow> Inl ValueError)"

text \<open>
  The choice of separator at the head of \<^verbatim>\<open>parse_equation\<close>: \<open>Inr None\<close> is the early
  \<^verbatim>\<open>return [], []\<close>.
\<close>

definition split_sides :: "string \<Rightarrow> py_error + (string \<times> string) option" where
  "split_sides equation =
     (if py_contains ''<=>'' equation
      then map_sum id Some (unpack2 (py_split '' <=> '' equation))
      else if py_contains ''=>'' equation
      then map_sum id Some (unpack2 (py_split '' => '' equation))
      else Inr None)"

text \<open>
  The body shared by both loops over the terms of a side: \<open>Inr None\<close> when the
  term is skipped (no token, or an identifier that starts with neither \<^verbatim>\<open>C\<close> nor
  \<^verbatim>\<open>G\<close>), otherwise the identifier and the coefficient.
\<close>

definition parse_term :: "string \<Rightarrow> py_error + (string \<times> int) option" where
  "parse_term t =
     (let parts = py_split_ws (py_strip t)
      in if length parts = 0 then Inr None
         else (case (if py_isdigit (hd parts) then py_int (hd parts) else Inr 1) of
                 Inl e \<Rightarrow> Inl e
               | Inr coeff \<Rightarrow>
                   (let met = last parts
                    in if py_startswith ''C'' met \<or> py_startswith ''G'' met
                       then Inr (Some (met, coeff))
                       else Inr None)))"

fun reactants_loop :: "string list \<Rightarrow> stoich \<Rightarrow> py_error + stoich" where
  "reactants_loop [] stoich = Inr stoich"
| "reactants_loop (t # ts) stoich =
     (case parse_term t of
        Inl e \<Rightarrow> Inl e
      | Inr None \<Rightarrow> reactants_loop ts stoich
      | Inr (Some (met, coeff)) \<Rightarrow>
          reactants_loop ts (AList.update met (dict_get stoich met 0 - coeff) stoich))"

fun products_loop :: "string list \<Rightarrow> stoich \<Rightarrow> py_error + stoich" where
  "products_loop [] stoich = Inr stoich"
| "products_loop (t # ts) stoich =
     (case parse_term t of
        Inl e \<Rightarrow> Inl e
      | Inr None \<Rightarrow> products_loop ts stoich
      | Inr (Some (met, coeff)) \<Rightarrow>
          products_loop ts (AList.update met (dict_get stoich met 0 + coeff) stoich))"

text \<open>The last loop: the entries with a non-zero coefficient, as two parallel lists.\<close>

definition drop_zero :: "stoich \<Rightarrow> string list \<times> int list" where
  "drop_zero stoich =
     (let kept = filter (\<lambda>(met, coeff). coeff \<noteq> 0) stoich in (map fst kept, map snd kept))"

definition parse_equation :: "string \<Rightarrow> py_error + (string list \<times> int list)" where
  "parse_equation equation =
     (case split_sides equation of
        Inl e \<Rightarrow> Inl e
      | Inr None \<Rightarrow> Inr ([], [])
      | Inr (Some (lhs, rhs)) \<Rightarrow>
          (case reactants_loop (py_split '' + '' lhs) [] of
             Inl e \<Rightarrow> Inl e
           | Inr stoich1 \<Rightarrow>
               (case products_loop (py_split '' + '' rhs) stoich1 of
                  Inl e \<Rightarrow> Inl e
                | Inr stoich2 \<Rightarrow> Inr (drop_zero stoich2))))"

section \<open>Splitting by direction and assembling the matrix (\<^verbatim>\<open>build_stoich_matrix\<close>)\<close>

text \<open>
  \<^verbatim>\<open>get_equations\<close> is a network call: the function below receives every reaction
  identifier paired with what the call returned for it (\<open>None\<close> for Python's
  \<^verbatim>\<open>None\<close>). The state of the first loop is the dictionary
  \<^verbatim>\<open>reaction_stoich\<close> and the set \<^verbatim>\<open>all_metabolites\<close>.
\<close>

record build_state =
  reaction_stoich :: "(string \<times> stoich) list"
  all_metabolites :: "string set"

text \<open>
  One pass of the loop body. An exception of \<^verbatim>\<open>parse_equation\<close> is not caught and
  ends the whole run. The forward record is guarded by \<^verbatim>\<open>if mets\<close>, the reverse
  record only by \<^verbatim>\<open>"<=>" in eqn\<close>.
\<close>

definition process_reaction ::
  "string \<Rightarrow> string option \<Rightarrow> build_state \<Rightarrow> py_error + build_state" where
  "process_reaction rxn_id eqn st =
     (case eqn of
        None \<Rightarrow> Inr st
      | Some eqn \<Rightarrow>
          if eqn = [] then Inr st
          else (case parse_equation eqn of
                  Inl e \<Rightarrow> Inl e
                | Inr (mets, coeffs) \<Rightarrow>
                    (let st1 =
                           (if mets \<noteq> []
                            then st\<lparr>reaction_stoich :=
                                      AList.update (rxn_id @ ''_f'') (dict_of_pairs (zip mets coeffs))
                                        (reaction_stoich st),
                                    all_metabolites := all_metabolites st \<union> set mets\<rparr>
                            else st);
                         st2 =
                           (if py_contains ''<=>'' eqn
                            then st1\<lparr>reaction_stoich :=
                                       AList.update (rxn_id @ ''_r'')
                                         (dict_of_pairs (map (\<lambda>(m, c). (m, - c)) (zip mets coeffs)))
                                         (reaction_stoich st1),
                                     all_metabolites := all_metabolites st1 \<union> set mets\<rparr>
                            else st1)
                     in Inr st2)))"

fun reactions_loop ::
  "(string \<times> string option) list \<Rightarrow> build_state \<Rightarrow> py_error + build_state" where
  "reactions_loop [] st = Inr st"
| "reactions_loop ((rxn_id, eqn) # rest) st =
     (case process_reaction rxn_id eqn st of
        Inl e \<Rightarrow> Inl e
      | Inr st' \<Rightarrow> reactions_loop rest st')"

text \<open>
  The data frame: row labels, column labels and the cells, one list per row.
  \<^verbatim>\<open>pd.DataFrame(0, index=..., columns=...)\<close> fills it with zeros.
\<close>

record dataframe =
  df_index :: "string list"
  df_columns :: "string list"
  df_values :: "int list list"

definition new_frame :: "string list \<Rightarrow> string list \<Rightarrow> dataframe" where
  "new_frame idx cols =
     \<lparr>df_index = idx, df_columns = cols,
      df_values = replicate (length idx) (replicate (length cols) 0)\<rparr>"

fun index_of :: "'a \<Rightarrow> 'a list \<Rightarrow> nat option" where
  "index_of x [] = None"
| "index_of x (y # ys) = (if x = y then Some 0 else map_option Suc (index_of x ys))"

text \<open>
  \<^verbatim>\<open>df.loc[met, rxn] = coeff\<close> with unique labels. With a label that the frame
  does not have pandas would enlarge the frame; the model stops there with
  \<open>SettingWithEnlargement\<close>, and \<open>build_only_ValueError\<close> below shows that the
  assembler never gets there.
\<close>

definition loc_set :: "string \<Rightarrow> string \<Rightarrow> int \<Rightarrow> dataframe \<Rightarrow> py_error + dataframe" where
  "loc_set met rxn coeff df =
     (case (index_of met (df_index df), index_of rxn (df_columns df)) of
        (Some i, Some j) \<Rightarrow>
          Inr (df\<lparr>df_values := (df_values df)[i := (df_values df ! i)[j := coeff]]\<rparr>)
      | _ \<Rightarrow> Inl SettingWithEnlargement)"

fun fill_column :: "string \<Rightarrow> stoich \<Rightarrow> dataframe \<Rightarrow> py_error + dataframe" where
  "fill_column rxn [] df = Inr df"
| "fill_column rxn ((met, coeff) # rest) df =
     (case loc_set met rxn coeff df of
        Inl e \<Rightarrow> Inl e
      | Inr df' \<Rightarrow> fill_column rxn rest df')"

fun fill_matrix :: "(string \<times> stoich) list \<Rightarrow> dataframe \<Rightarrow> py_error + dataframe" where
  "fill_matrix [] df = Inr df"
| "fill_matrix ((rxn, stoich) # rest) df =
     (case fill_column rxn stoich df of
        Inl e \<Rightarrow> Inl e
      | Inr df' \<Rightarrow> fill_matrix rest df')"

text \<open>
  \<^verbatim>\<open>sorted\<close> orders strings by code point, lexicographically: the order of
  \<^typ>\<open>string\<close> here.
\<close>

definition build_stoich_matrix :: "(string \<times> string option) list \<Rightarrow> py_error + dataframe" where
  "build_stoich_matrix fetched =
     (case reactions_loop fetched \<lparr>reaction_stoich = [], all_metabolites = {}\<rparr> of
        Inl e \<Rightarrow> Inl e
      | Inr st \<Rightarrow>
          fill_matrix (reaction_stoich st)
            (new_frame (sorted_list_of_set (all_metabolites st)) (map fst (reaction_stoich st))))"

section \<open>Index maps and derived matrices (\<^verbatim>\<open>load_data.py\<close>)\<close>

text \<open>
  The script reads the matrix back with its row labels (\<^verbatim>\<open>metabolites\<close>) and column
  labels (\<^verbatim>\<open>reactions\<close>); \<^verbatim>\<open>stoich_matrix\<close> is the array of cells, one row per
  metabolite. The cells are integers.
\<close>

definition met_map :: "string list \<Rightarrow> (string \<times> nat) list" where
  "met_map metabolites =
     dict_of_pairs (map (\<lambda>(idx, met_id). (met_id, idx)) (enumerate 0 metabolites))"

definition inv_met_map :: "string list \<Rightarrow> (nat \<times> string) list" where
  "inv_met_map metabolites =
     dict_of_pairs (map (\<lambda>(met_id, idx). (idx, met_id)) (met_map metabolites))"

definition rxn_map :: "string list \<Rightarrow> (string \<times> nat) list" where
  "rxn_map reactions =
     dict_of_pairs (map (\<lambda>(idx, rxn_id). (rxn_id, idx)) (enumerate 0 reactions))"

definition inv_rxn_map :: "string list \<Rightarrow> (nat \<times> string) list" where
  "inv_rxn_map reactions =
     dict_of_pairs (map (\<lambda>(rxn_id, idx). (idx, rxn_id)) (rxn_map reactions))"

text \<open>
  \<^verbatim>\<open>d[k]\<close> raises \<^verbatim>\<open>KeyError\<close> on a missing key. The comprehension
  \<^verbatim>\<open>[met_map[i] for i in ids if i in met_map]\<close> behind \<^verbatim>\<open>Currency\<close>,
  \<^verbatim>\<open>Energy\<close> and \<^verbatim>\<open>Core\<close>:
\<close>

definition dict_item :: "('k \<times> 'v) list \<Rightarrow> 'k \<Rightarrow> py_error + 'v" where
  "dict_item d k = (case map_of d k of None \<Rightarrow> Inl KeyError | Some v \<Rightarrow> Inr v)"

fun subset_projection :: "(string \<times> nat) list \<Rightarrow> string list \<Rightarrow> py_error + nat list" where
  "subset_projection mm [] = Inr []"
| "subset_projection mm (i # ids) =
     (if map_of mm i \<noteq> None
      then (case dict_item mm i of
              Inl e \<Rightarrow> Inl e
            | Inr v \<Rightarrow>
                (case subset_projection mm ids of Inl e \<Rightarrow> Inl e | Inr vs \<Rightarrow> Inr (v # vs)))
      else subset_projection mm ids)"

definition Currency :: "string list \<Rightarrow> string list \<Rightarrow> py_error + nat list" where
  "Currency metabolites indices_of_currency_mets =
     subset_projection (met_map metabolites) indices_of_currency_mets"

text \<open>
  The cells of \<^verbatim>\<open>stoich_matrix\<close> are 64-bit integers. \<^verbatim>\<open>clip\<close> with the bound
  \<^verbatim>\<open>0.0\<close> first converts them to \<^verbatim>\<open>float64\<close>: an integer of magnitude below
  \<open>2 ^ 53\<close> is kept, a larger one is rounded to 53 significant bits, a tie going to the
  even neighbour. Every float that arises this way is an integer and is kept as an
  \<^typ>\<open>int\<close>. \<open>dropped_bits k a\<close> counts the low bits that do not fit, halving at
  most \<open>k\<close> times; a 64-bit magnitude loses at most 11.
\<close>

fun dropped_bits :: "nat \<Rightarrow> int \<Rightarrow> nat" where
  "dropped_bits 0 a = 0"
| "dropped_bits (Suc k) a = (if a < 2 ^ 53 then 0 else Suc (dropped_bits k (a div 2)))"

definition float64_of_int :: "int \<Rightarrow> int" where
  "float64_of_int x =
     (let a = \<bar>x\<bar>
      in if a < 2 ^ 53 then x
         else (let e = dropped_bits 11 a;
                   q = a div 2 ^ e;
                   r = a mod 2 ^ e;
                   q' = (if 2 ^ e < 2 * r \<or> (2 * r = 2 ^ e \<and> q mod 2 = 1) then q + 1 else q)
               in sgn x * (q' * 2 ^ e)))"

text \<open>
  \<^verbatim>\<open>clip(max = 0.0)\<close> and \<^verbatim>\<open>clip(min = 0.0)\<close> on the converted cells, the indicator
  \<^verbatim>\<open>(a != 0) * 1\<close>, and \<^verbatim>\<open>np.sum(a, axis = 1)\<close>, which adds up each row of a
  two-dimensional array.
\<close>

definition rho :: "int list list \<Rightarrow> int list list" where
  "rho stoich_matrix = map (map (\<lambda>x. min (float64_of_int x) 0)) stoich_matrix"

definition pi_mat :: "int list list \<Rightarrow> int list list" where
  "pi_mat stoich_matrix = map (map (\<lambda>x. max (float64_of_int x) 0)) stoich_matrix"

definition indicator :: "int list list \<Rightarrow> int list list" where
  "indicator a = map (map (\<lambda>x. if x \<noteq> 0 then 1 else 0)) a"

definition rxnMat :: "int list list \<Rightarrow> int list list" where
  "rxnMat stoich_matrix = indicator (rho stoich_matrix)"

definition prodMat :: "int list list \<Rightarrow> int list list" where
  "prodMat stoich_matrix = indicator (pi_mat stoich_matrix)"

definition np_sum_axis1 :: "int list list \<Rightarrow> int list" where
  "np_sum_axis1 a = map sum_list a"

definition sumRxnVec :: "int list list \<Rightarrow> int list" where
  "sumRxnVec stoich_matrix = np_sum_axis1 (rxnMat stoich_matrix)"

definition sumProdVec :: "int list list \<Rightarrow> int list" where
  "sumProdVec stoich_matrix = np_sum_axis1 (prodMat stoich_matrix)"

section \<open>Notions the properties are stated with\<close>

text \<open>
  The number of negative and of positive cells in column \<open>j\<close> of a matrix given by its
  rows, and the number of negative and positive cells of one row.
\<close>

definition negative_in_column :: "int list list \<Rightarrow> nat \<Rightarrow> int" where
  "negative_in_column a j = int (length (filter (\<lambda>row. row ! j < 0) a))"

definition positive_in_column :: "int list list \<Rightarrow> nat \<Rightarrow> int" where
  "positive_in_column a j = int (length (filter (\<lambda>row. 0 < row ! j) a))"

text \<open>
  The total coefficient with which the identifier \<open>m\<close> occurs among the terms of one
  side of an equation: the sum of the coefficients of the retained terms that name it.
\<close>

fun total_coeff :: "string \<Rightarrow> string list \<Rightarrow> int" where
  "total_coeff m [] = 0"
| "total_coeff m (t # ts) =
     (case parse_term t of
        Inr (Some (met, coeff)) \<Rightarrow> (if met = m then coeff else 0)
      | _ \<Rightarrow> 0) + total_coeff m ts"

section \<open>Facts about the string functions\<close>

lemma py_startswith_iff: "py_startswith p s \<longleftrightarrow> (\<exists>ys. s = p @ ys)"
  unfolding py_startswith_def by (metis append_eq_conv_conj append_take_drop_id)

lemma py_contains_iff: "py_contains sub s \<longleftrightarrow> (\<exists>xs ys. s = xs @ sub @ ys)"
proof (induction s)
  case Nil
  show ?case by simp
next
  case (Cons c cs)
  show ?case
  proof
    assume "py_contains sub (c # cs)"
    then consider "py_startswith sub (c # cs)" | "py_contains sub cs" by auto
    then show "\<exists>xs ys. c # cs = xs @ sub @ ys"
    proof cases
      case 1
      then obtain ys where "c # cs = sub @ ys" by (auto simp: py_startswith_iff)
      then have "c # cs = [] @ sub @ ys" by simp
      then show ?thesis by blast
    next
      case 2
      then obtain xs ys where "cs = xs @ sub @ ys" using Cons.IH by auto
      then have "c # cs = (c # xs) @ sub @ ys" by simp
      then show ?thesis by blast
    qed
  next
    assume "\<exists>xs ys. c # cs = xs @ sub @ ys"
    then obtain xs ys where e: "c # cs = xs @ sub @ ys" by auto
    show "py_contains sub (c # cs)"
    proof (cases xs)
      case Nil
      with e have "py_startswith sub (c # cs)" by (auto simp: py_startswith_iff)
      then show ?thesis by simp
    next
      case (Cons x xs')
      with e have "cs = xs' @ sub @ ys" by simp
      then have "py_contains sub cs" using Cons.IH by blast
      then show ?thesis by simp
    qed
  qed
qed

section \<open>Facts about dictionaries\<close>

lemma update_fresh: "k \<notin> fst ` set d \<Longrightarrow> AList.update k v d = d @ [(k, v)]"
  by (induction d) auto

lemma fold_update_map_of:
  "map_of (fold (\<lambda>(k, v) d. AList.update k v d) ps d) = map_of (rev ps @ d)"
proof (induction ps arbitrary: d)
  case Nil
  show ?case by simp
next
  case (Cons p ps)
  obtain k v where p: "p = (k, v)" by (cases p)
  show ?case
    by (simp add: p Cons.IH update_conv' map_add_def fun_eq_iff split: option.splits)
qed

lemma map_of_dict_of_pairs: "map_of (dict_of_pairs ps) = map_of (rev ps)"
  by (simp add: dict_of_pairs_def fold_update_map_of)

lemma fold_update_distinct:
  "distinct (map fst d) \<Longrightarrow> distinct (map fst (fold (\<lambda>(k, v) d. AList.update k v d) ps d))"
  by (induction ps arbitrary: d) (auto simp: distinct_update)

lemma distinct_dict_of_pairs: "distinct (map fst (dict_of_pairs ps))"
  by (simp add: dict_of_pairs_def fold_update_distinct)

lemma fold_update_fresh:
  "distinct (map fst (d @ ps)) \<Longrightarrow> fold (\<lambda>(k, v) d. AList.update k v d) ps d = d @ ps"
proof (induction ps arbitrary: d)
  case Nil
  show ?case by simp
next
  case (Cons p ps)
  obtain k v where p: "p = (k, v)" by (cases p)
  from Cons.prems have fresh: "k \<notin> fst ` set d" by (auto simp: p)
  from Cons.prems have "distinct (map fst ((d @ [(k, v)]) @ ps))" by (simp add: p)
  then have "fold (\<lambda>(k, v) d. AList.update k v d) ps (d @ [(k, v)]) = (d @ [(k, v)]) @ ps"
    by (rule Cons.IH)
  then show ?case by (simp add: p update_fresh [OF fresh])
qed

lemma dict_of_pairs_distinct: "distinct (map fst ps) \<Longrightarrow> dict_of_pairs ps = ps"
  using fold_update_fresh [of "[]" ps] by (simp add: dict_of_pairs_def)

section \<open>The parser\<close>

text \<open>
  C6. An equation that contains neither \<^verbatim>\<open><=>\<close> nor \<^verbatim>\<open>=>\<close> as a substring is
  answered with the empty metabolite list and the empty coefficient list; no exception
  is raised.
\<close>

theorem parse_equation_no_separator:
  assumes "\<not> (\<exists>xs ys. equation = xs @ ''<=>'' @ ys)"
    and "\<not> (\<exists>xs ys. equation = xs @ ''=>'' @ ys)"
  shows "parse_equation equation = Inr ([], [])"
  using assms by (simp add: parse_equation_def split_sides_def py_contains_iff)

theorem parse_equation_no_separator_witness:
  "\<not> (\<exists>xs ys. ''C00001 + C00002'' = xs @ ''<=>'' @ ys)
   \<and> \<not> (\<exists>xs ys. ''C00001 + C00002'' = xs @ ''=>'' @ ys)
   \<and> parse_equation ''C00001 + C00002'' = Inr ([], [])"
proof -
  have "\<not> py_contains ''<=>'' ''C00001 + C00002''" by code_simp
  then have h1: "\<not> (\<exists>xs ys. ''C00001 + C00002'' = xs @ ''<=>'' @ ys)"
    using py_contains_iff [of "''<=>''" "''C00001 + C00002''"] by blast
  have "\<not> py_contains ''=>'' ''C00001 + C00002''" by code_simp
  then have h2: "\<not> (\<exists>xs ys. ''C00001 + C00002'' = xs @ ''=>'' @ ys)"
    using py_contains_iff [of "''=>''" "''C00001 + C00002''"] by blast
  from h1 h2 parse_equation_no_separator [OF h1 h2] show ?thesis by blast
qed

text \<open>
  C9. The parser is partial on equations that contain \<^verbatim>\<open><=>\<close>. Without the blanks
  around the separator the split returns one part, with the spaced separator twice it
  returns three; in both cases the unpacking into \<^verbatim>\<open>lhs, rhs\<close> raises
  \<^verbatim>\<open>ValueError\<close> and no result is returned.
\<close>

theorem parse_equation_raises:
  "py_contains ''<=>'' ''C00001<=>C00002''
   \<and> py_split '' <=> '' ''C00001<=>C00002'' = [''C00001<=>C00002'']
   \<and> parse_equation ''C00001<=>C00002'' = Inl ValueError
   \<and> py_contains ''<=>'' ''C00001 <=> C00002 <=> C00003''
   \<and> py_split '' <=> '' ''C00001 <=> C00002 <=> C00003'' = [''C00001'', ''C00002'', ''C00003'']
   \<and> parse_equation ''C00001 <=> C00002 <=> C00003'' = Inl ValueError"
  by code_simp

text \<open>
  The coefficient of a term, by the shape of its first token: a run of decimal digits
  gives its value, a token that \<^verbatim>\<open>isdigit\<close> refuses gives 1, and a token that
  \<^verbatim>\<open>isdigit\<close> accepts although it holds a superscript digit makes \<^verbatim>\<open>int\<close> raise.
\<close>

lemma split_ws_from_tokens: "tok \<in> set (split_ws_from cur s) \<Longrightarrow> tok \<noteq> []"
  by (induction s arbitrary: cur) (auto split: if_splits)

lemma py_split_ws_tokens: "tok \<in> set (py_split_ws s) \<Longrightarrow> tok \<noteq> []"
  unfolding py_split_ws_def by (rule split_ws_from_tokens)

lemma decimal_isdigit: "list_all is_decimal s \<Longrightarrow> list_all isdigit_char s"
  by (induction s) (auto simp: is_decimal_def isdigit_char_def Let_def)

lemma parse_term_coefficient:
  assumes "py_split_ws (py_strip t) = first # rest"
  shows "list_all is_decimal first \<Longrightarrow>
           parse_term t =
             (if py_startswith ''C'' (last (first # rest)) \<or> py_startswith ''G'' (last (first # rest))
              then Inr (Some (last (first # rest), fold (\<lambda>c n. 10 * n + digit_value c) first 0))
              else Inr None)"
    and "\<not> py_isdigit first \<Longrightarrow>
           parse_term t =
             (if py_startswith ''C'' (last (first # rest)) \<or> py_startswith ''G'' (last (first # rest))
              then Inr (Some (last (first # rest), 1))
              else Inr None)"
    and "py_isdigit first \<Longrightarrow> \<not> list_all is_decimal first \<Longrightarrow> parse_term t = Inl ValueError"
proof -
  have "first \<in> set (py_split_ws (py_strip t))" by (simp add: assms)
  then have ne: "first \<noteq> []" by (rule py_split_ws_tokens)
  show "parse_term t =
             (if py_startswith ''C'' (last (first # rest)) \<or> py_startswith ''G'' (last (first # rest))
              then Inr (Some (last (first # rest), fold (\<lambda>c n. 10 * n + digit_value c) first 0))
              else Inr None)" if "list_all is_decimal first"
    using that ne decimal_isdigit [OF that]
    by (simp add: parse_term_def assms py_isdigit_def py_int_def Let_def del: last.simps)
  show "parse_term t =
             (if py_startswith ''C'' (last (first # rest)) \<or> py_startswith ''G'' (last (first # rest))
              then Inr (Some (last (first # rest), 1))
              else Inr None)" if "\<not> py_isdigit first"
    using that by (simp add: parse_term_def assms Let_def del: last.simps)
  show "parse_term t = Inl ValueError" if "py_isdigit first" "\<not> list_all is_decimal first"
    using that by (simp add: parse_term_def assms py_int_def Let_def del: last.simps)
qed

text \<open>
  C10. The coefficient of a term is read from its first token and the identifier from its
  last. A prefix that is not a number (\<^verbatim>\<open>2n\<close>, \<^verbatim>\<open>(n)\<close>) gives the coefficient 1, a
  decimal prefix gives its value, and an identifier that starts with neither \<^verbatim>\<open>C\<close>
  nor \<^verbatim>\<open>G\<close> is not retained. A first token made of the superscript digit U+00B2
  passes \<^verbatim>\<open>isdigit\<close> and is then refused by \<^verbatim>\<open>int\<close>: the term yields no
  coefficient at all, and the parser raises \<^verbatim>\<open>ValueError\<close>.
\<close>

theorem parse_term_superscript_digit:
  "parse_term ''2n C00001'' = Inr (Some (''C00001'', 1))
   \<and> parse_term ''(n) C00001'' = Inr (Some (''C00001'', 1))
   \<and> parse_term ''2 C00001'' = Inr (Some (''C00001'', 2))
   \<and> parse_term ''2 H2O'' = Inr None
   \<and> py_isdigit [CHR 0xB2]
   \<and> parse_term (CHR 0xB2 # '' C00001'') = Inl ValueError
   \<and> parse_equation (CHR 0xB2 # '' C00001 => C00002'') = Inl ValueError"
  by code_simp

section \<open>The assembled matrix\<close>

text \<open>
  C2. A reversible equation whose terms cancel (\<^verbatim>\<open>C00001 <=> C00001\<close>) parses to no
  metabolite. The forward record is skipped, but the reverse record is still stored, with
  an empty stoichiometry: the matrix gets the column \<^verbatim>\<open>R00001_r\<close>, and every cell of
  that column is zero.
\<close>

theorem degenerate_reverse_column:
  "build_stoich_matrix
     [(''R00002'', Some ''2 C00001 => C00004''), (''R00001'', Some ''C00001 <=> C00001'')]
   = Inr \<lparr>df_index = [''C00001'', ''C00004''],
          df_columns = [''R00002_f'', ''R00001_r''],
          df_values = [[- 2, 0], [1, 0]]\<rparr>"
  by code_simp

section \<open>The derived matrices\<close>

text \<open>
  The conversion to \<^verbatim>\<open>float64\<close> keeps every integer of magnitude up to \<open>2 ^ 53\<close>, and
  it keeps the sign of every integer.
\<close>

lemma dropped_bits_le: "0 < a \<Longrightarrow> 2 ^ dropped_bits k a \<le> a"
proof (induction k arbitrary: a)
  case 0
  then show ?case by simp
next
  case (Suc k)
  show ?case
  proof (cases "a < 2 ^ 53")
    case True
    with Suc.prems show ?thesis by simp
  next
    case False
    then have "0 < a div 2" by simp
    from Suc.IH [OF this] have "2 * 2 ^ dropped_bits k (a div 2) \<le> 2 * (a div 2)" by simp
    also have "\<dots> \<le> a" by simp
    finally show ?thesis using False by simp
  qed
qed


lemma float64_of_int_sign:
  "(float64_of_int x < 0 \<longleftrightarrow> x < 0) \<and> (0 < float64_of_int x \<longleftrightarrow> 0 < x)"
proof (cases "\<bar>x\<bar> < 2 ^ 53")
  case True
  then show ?thesis by (simp add: float64_of_int_def)
next
  case False
  define a where "a = \<bar>x\<bar>"
  define e where "e = dropped_bits 11 a"
  define q where "q = a div 2 ^ e"
  define q' where
    "q' = (if 2 ^ e < 2 * (a mod 2 ^ e) \<or> (2 * (a mod 2 ^ e) = 2 ^ e \<and> q mod 2 = 1) then q + 1 else q)"
  from False have pos: "0 < a" by (simp add: a_def)
  have "2 ^ e \<le> a" unfolding e_def using pos by (rule dropped_bits_le)
  then have "0 < q" unfolding q_def by (simp add: pos_imp_zdiv_pos_iff)
  then have "0 < q'" by (simp add: q'_def)
  then have m: "0 < q' * 2 ^ e" by simp
  have f: "float64_of_int x = sgn x * (q' * 2 ^ e)"
    using False unfolding float64_of_int_def Let_def a_def e_def q_def q'_def by (rule if_not_P)
  from pos have "x \<noteq> 0" by (auto simp: a_def)
  then consider "x < 0" | "0 < x" by arith
  then show ?thesis
  proof cases
    case 1
    with m f show ?thesis by (simp add: mult_pos_pos)
  next
    case 2
    with m f show ?thesis by simp
  qed
qed




text \<open>
  What the two degree vectors hold: \<^verbatim>\<open>np.sum(..., axis = 1)\<close> adds along each row, so
  entry \<open>i\<close> counts the negative (positive) cells of row \<open>i\<close>, the row of metabolite
  \<open>i\<close>.
\<close>

lemma sum_indicator_min:
  "sum_list (map (\<lambda>x. if min (float64_of_int x) 0 \<noteq> 0 then 1 else 0) (row :: int list))
    = int (length (filter (\<lambda>x. x < 0) row))"
proof (induction row)
  case Nil
  show ?case by simp
next
  case (Cons x row)
  have "min (float64_of_int x) 0 \<noteq> 0 \<longleftrightarrow> x < 0"
    using float64_of_int_sign [of x] by auto
  with Cons show ?case by simp
qed

lemma sum_indicator_max:
  "sum_list (map (\<lambda>x. if max (float64_of_int x) 0 \<noteq> 0 then 1 else 0) (row :: int list))
    = int (length (filter (\<lambda>x. 0 < x) row))"
proof (induction row)
  case Nil
  show ?case by simp
next
  case (Cons x row)
  have "max (float64_of_int x) 0 \<noteq> 0 \<longleftrightarrow> 0 < x"
    using float64_of_int_sign [of x] by auto
  with Cons show ?case by simp
qed

lemma sumRxnVec_row:
  "sumRxnVec a = map (\<lambda>row. int (length (filter (\<lambda>x. x < 0) row))) a"
  by (simp add: sumRxnVec_def np_sum_axis1_def rxnMat_def indicator_def rho_def o_def
      sum_indicator_min)

lemma sumProdVec_row:
  "sumProdVec a = map (\<lambda>row. int (length (filter (\<lambda>x. 0 < x) row))) a"
  by (simp add: sumProdVec_def np_sum_axis1_def prodMat_def indicator_def pi_mat_def o_def
      sum_indicator_max)

text \<open>
  C1. For the equation \<^verbatim>\<open>C00001 + C00002 <=> C00003\<close> the matrix has three metabolite
  rows and the two columns \<^verbatim>\<open>R00001_f\<close>, \<^verbatim>\<open>R00001_r\<close>. Column 0 has two negative
  cells and column 1 has two positive cells, but \<^verbatim>\<open>sumRxnVec\<close> and
  \<^verbatim>\<open>sumProdVec\<close> have three entries, one per metabolite, each equal to 1.
\<close>

theorem degree_vectors_per_metabolite:
  "build_stoich_matrix [(''R00001'', Some ''C00001 + C00002 <=> C00003'')]
     = Inr \<lparr>df_index = [''C00001'', ''C00002'', ''C00003''],
            df_columns = [''R00001_f'', ''R00001_r''],
            df_values = [[- 1, 1], [- 1, 1], [1, - 1]]\<rparr>
   \<and> sumRxnVec [[- 1, 1], [- 1, 1], [1, - 1]] = [1, 1, 1]
   \<and> negative_in_column [[- 1, 1], [- 1, 1], [1, - 1]] 0 = 2
   \<and> sumProdVec [[- 1, 1], [- 1, 1], [1, - 1]] = [1, 1, 1]
   \<and> positive_in_column [[- 1, 1], [- 1, 1], [1, - 1]] 1 = 2"
  by code_simp

section \<open>The index maps\<close>

lemma swap_enumerate: "map (\<lambda>(idx, x). (x, idx)) (enumerate 0 xs) = zip xs [0..<length xs]"
  by (simp add: enumerate_eq_zip zip_commute [of xs])

lemma met_map_zip: "distinct ms \<Longrightarrow> met_map ms = zip ms [0..<length ms]"
  by (simp add: met_map_def swap_enumerate dict_of_pairs_distinct)

lemma inv_met_map_zip: "distinct ms \<Longrightarrow> inv_met_map ms = zip [0..<length ms] ms"
  by (simp add: inv_met_map_def met_map_zip zip_commute [of "[0..<length ms]" ms, symmetric]
      dict_of_pairs_distinct)

lemma met_map_keys: "fst ` set (met_map ms) = set ms"
proof -
  have "dom (map_of (met_map ms)) = set ms"
    by (simp add: met_map_def map_of_dict_of_pairs dom_map_of_conv_image_fst swap_enumerate
        flip: rev_map set_map)
  then show ?thesis by (simp add: dom_map_of_conv_image_fst)
qed

lemma met_map_present: "map_of (met_map ms) m \<noteq> None \<longleftrightarrow> m \<in> set ms"
  using met_map_keys [of ms] by (simp add: map_of_eq_None_iff)

lemma subset_projection_eq:
  "subset_projection mm ids =
     Inr (map (\<lambda>i. the (map_of mm i)) (filter (\<lambda>i. map_of mm i \<noteq> None) ids))"
  by (induction ids) (auto simp: dict_item_def split: option.splits)

text \<open>
  C7. The projection of a list of identifiers never raises. It returns the indices of the
  identifiers that are rows of the matrix, in the order of the list, and leaves the others
  out: the result is shorter than the list by the number of absent entries, so by exactly
  one when one entry is absent.
\<close>

theorem subset_projection_tolerant:
  "\<exists>idxs. Currency metabolites ids = Inr idxs
     \<and> map Some idxs = map (map_of (met_map metabolites)) (filter (\<lambda>i. i \<in> set metabolites) ids)
     \<and> length idxs + length (filter (\<lambda>i. i \<notin> set metabolites) ids) = length ids
     \<and> (length (filter (\<lambda>i. i \<notin> set metabolites) ids) = 1 \<longrightarrow> Suc (length idxs) = length ids)"
proof -
  let ?mm = "met_map metabolites"
  let ?idxs = "map (\<lambda>i. the (map_of ?mm i)) (filter (\<lambda>i. i \<in> set metabolites) ids)"
  have "(\<lambda>i. map_of ?mm i \<noteq> None) = (\<lambda>i. i \<in> set metabolites)"
    by (rule ext) (rule met_map_present)
  then have 1: "Currency metabolites ids = Inr ?idxs"
    by (simp only: Currency_def subset_projection_eq)
  have 2: "map Some ?idxs = map (map_of ?mm) (filter (\<lambda>i. i \<in> set metabolites) ids)"
    by (auto simp: met_map_present [symmetric])
  have 3: "length ?idxs + length (filter (\<lambda>i. i \<notin> set metabolites) ids) = length ids"
    using sum_length_filter_compl [of "\<lambda>i. i \<in> set metabolites" ids] by simp
  from 1 2 3 show ?thesis by auto
qed

theorem subset_projection_tolerant_witness:
  "length (filter (\<lambda>i. i \<notin> set [''C00001'', ''C00002'', ''C00003'']) [''C00003'', ''C99999'', ''C00001'']) = 1
   \<and> (\<exists>idxs. Currency [''C00001'', ''C00002'', ''C00003''] [''C00003'', ''C99999'', ''C00001''] = Inr idxs
         \<and> Suc (length idxs) = length [''C00003'', ''C99999'', ''C00001''])"
proof -
  have h: "length (filter (\<lambda>i. i \<notin> set [''C00001'', ''C00002'', ''C00003''])
             [''C00003'', ''C99999'', ''C00001'']) = 1"
    by code_simp
  from h subset_projection_tolerant [of "[''C00001'', ''C00002'', ''C00003'']"
      "[''C00003'', ''C99999'', ''C00001'']"]
  show ?thesis by blast
qed

section \<open>Row and column labels of the assembled matrix\<close>

text \<open>
  Filling the frame leaves its labels alone, and the labels the assembler starts from are
  the sorted metabolite set and the keys of a dictionary: neither has a duplicate.
\<close>

lemma loc_set_labels:
  "loc_set met rxn coeff df = Inr df' \<Longrightarrow> df_index df' = df_index df \<and> df_columns df' = df_columns df"
  by (auto simp: loc_set_def split: option.splits)

lemma fill_column_labels:
  "fill_column rxn rec df = Inr df' \<Longrightarrow> df_index df' = df_index df \<and> df_columns df' = df_columns df"
proof (induction rec arbitrary: df)
  case Nil
  then show ?case by simp
next
  case (Cons p rest)
  obtain met coeff where p: "p = (met, coeff)" by (cases p)
  from Cons.prems obtain df1 where 1: "loc_set met rxn coeff df = Inr df1"
    and 2: "fill_column rxn rest df1 = Inr df'"
    by (auto simp: p split: sum.splits)
  from Cons.IH [OF 2] loc_set_labels [OF 1] show ?case by simp
qed

lemma fill_matrix_labels:
  "fill_matrix recs df = Inr df' \<Longrightarrow> df_index df' = df_index df \<and> df_columns df' = df_columns df"
proof (induction recs arbitrary: df)
  case Nil
  then show ?case by simp
next
  case (Cons p rest)
  obtain rxn rec where p: "p = (rxn, rec)" by (cases p)
  from Cons.prems obtain df1 where 1: "fill_column rxn rec df = Inr df1"
    and 2: "fill_matrix rest df1 = Inr df'"
    by (auto simp: p split: sum.splits)
  from Cons.IH [OF 2] fill_column_labels [OF 1] show ?case by simp
qed

lemma process_reaction_distinct:
  assumes "process_reaction rxn_id eqn st = Inr st'"
    and "distinct (map fst (reaction_stoich st))"
  shows "distinct (map fst (reaction_stoich st'))"
  using assms
  by (auto simp: process_reaction_def Let_def distinct_update
      split: option.splits if_splits sum.splits prod.splits)

lemma reactions_loop_distinct:
  "reactions_loop fetched st = Inr st' \<Longrightarrow> distinct (map fst (reaction_stoich st))
   \<Longrightarrow> distinct (map fst (reaction_stoich st'))"
proof (induction fetched arbitrary: st)
  case Nil
  then show ?case by simp
next
  case (Cons p rest)
  obtain rxn_id eqn where p: "p = (rxn_id, eqn)" by (cases p)
  from Cons.prems(1) obtain st1 where 1: "process_reaction rxn_id eqn st = Inr st1"
    and 2: "reactions_loop rest st1 = Inr st'"
    by (auto simp: p split: sum.splits)
  from process_reaction_distinct [OF 1 Cons.prems(2)] Cons.IH [OF 2] show ?case by simp
qed

lemma build_labels:
  assumes "build_stoich_matrix fetched = Inr df"
  shows "distinct (df_index df) \<and> distinct (df_columns df)"
proof -
  from assms obtain st where
    1: "reactions_loop fetched \<lparr>reaction_stoich = [], all_metabolites = {}\<rparr> = Inr st"
    and 2: "fill_matrix (reaction_stoich st)
         (new_frame (sorted_list_of_set (all_metabolites st)) (map fst (reaction_stoich st))) = Inr df"
    by (auto simp: build_stoich_matrix_def split: sum.splits)
  from reactions_loop_distinct [OF 1] have "distinct (map fst (reaction_stoich st))" by simp
  with fill_matrix_labels [OF 2] show ?thesis by (simp add: new_frame_def)
qed

lemma rxn_map_eq: "rxn_map = met_map" "inv_rxn_map = inv_met_map"
  by (simp_all add: fun_eq_iff rxn_map_def met_map_def inv_rxn_map_def inv_met_map_def)

lemma met_map_nth:
  assumes "distinct ms" and "i < length ms"
  shows "map_of (met_map ms) (ms ! i) = Some i \<and> map_of (inv_met_map ms) i = Some (ms ! i)"
proof -
  have "map_of (zip ms [0..<length ms]) (ms ! i) = Some ([0..<length ms] ! i)"
    using assms by (intro map_of_zip_nth) simp_all
  moreover have "map_of (zip [0..<length ms] ms) ([0..<length ms] ! i) = Some (ms ! i)"
    using assms by (intro map_of_zip_nth) simp_all
  ultimately show ?thesis using assms by (simp add: met_map_zip inv_met_map_zip)
qed

lemma inv_met_map_keys: "distinct ms \<Longrightarrow> fst ` set (inv_met_map ms) = {..<length ms}"
  by (simp add: inv_met_map_zip flip: set_map) (auto)

text \<open>
  C8. For the row labels and the column labels of an assembled matrix, the forward map
  sends the label at position \<open>i\<close> to \<open>i\<close> and the inverse map sends \<open>i\<close> back to that
  label. So the inverse of the forward map is the identity on every label of the matrix,
  the forward maps are defined exactly on the labels and the inverse maps exactly on the
  positions below the number of rows (columns).
\<close>

theorem index_maps_round_trip:
  assumes "build_stoich_matrix fetched = Inr df"
  shows "(\<forall>m \<in> set (df_index df). \<exists>i. map_of (met_map (df_index df)) m = Some i
            \<and> map_of (inv_met_map (df_index df)) i = Some m)
       \<and> (\<forall>r \<in> set (df_columns df). \<exists>j. map_of (rxn_map (df_columns df)) r = Some j
            \<and> map_of (inv_rxn_map (df_columns df)) j = Some r)
       \<and> (\<forall>i < length (df_index df). map_of (met_map (df_index df)) (df_index df ! i) = Some i
            \<and> map_of (inv_met_map (df_index df)) i = Some (df_index df ! i))
       \<and> (\<forall>j < length (df_columns df). map_of (rxn_map (df_columns df)) (df_columns df ! j) = Some j
            \<and> map_of (inv_rxn_map (df_columns df)) j = Some (df_columns df ! j))
       \<and> fst ` set (met_map (df_index df)) = set (df_index df)
       \<and> fst ` set (inv_met_map (df_index df)) = {..<length (df_index df)}
       \<and> fst ` set (rxn_map (df_columns df)) = set (df_columns df)
       \<and> fst ` set (inv_rxn_map (df_columns df)) = {..<length (df_columns df)}"
proof -
  from build_labels [OF assms] have d: "distinct (df_index df)" "distinct (df_columns df)"
    by simp_all
  have rt: "\<forall>x \<in> set xs. \<exists>i. map_of (met_map xs) x = Some i \<and> map_of (inv_met_map xs) i = Some x"
    if "distinct xs" for xs
  proof
    fix x assume "x \<in> set xs"
    then obtain i where "i < length xs" "xs ! i = x" by (auto simp: in_set_conv_nth)
    with met_map_nth [OF that, of i] show "\<exists>i. map_of (met_map xs) x = Some i \<and> map_of (inv_met_map xs) i = Some x"
      by auto
  qed
  show ?thesis
    using rt [OF d(1)] rt [OF d(2)] met_map_nth [OF d(1)] met_map_nth [OF d(2)]
      met_map_keys inv_met_map_keys [OF d(1)] inv_met_map_keys [OF d(2)]
    by (simp add: rxn_map_eq)
qed

theorem index_maps_round_trip_witness:
  "build_stoich_matrix [(''R00001'', Some ''C00001 + C00002 <=> C00003'')]
     = Inr \<lparr>df_index = [''C00001'', ''C00002'', ''C00003''],
            df_columns = [''R00001_f'', ''R00001_r''],
            df_values = [[- 1, 1], [- 1, 1], [1, - 1]]\<rparr>
   \<and> map_of (met_map [''C00001'', ''C00002'', ''C00003'']) ''C00002'' = Some 1
   \<and> map_of (inv_met_map [''C00001'', ''C00002'', ''C00003'']) 1 = Some ''C00002''
   \<and> map_of (rxn_map [''R00001_f'', ''R00001_r'']) ''R00001_r'' = Some 1
   \<and> map_of (inv_rxn_map [''R00001_f'', ''R00001_r'']) 1 = Some ''R00001_r''"
proof -
  define ms where "ms = [''C00001'', ''C00002'', ''C00003'']"
  define rs where "rs = [''R00001_f'', ''R00001_r'']"
  define df where "df = \<lparr>df_index = ms, df_columns = rs,
            df_values = [[- 1, 1], [- 1, 1], [1, - 1 :: int]]\<rparr>"
  have b: "build_stoich_matrix [(''R00001'', Some ''C00001 + C00002 <=> C00003'')] = Inr df"
    unfolding df_def ms_def rs_def by code_simp
  have sel: "df_index df = ms" "df_columns df = rs" by (simp_all add: df_def)
  have len: "1 < length ms" "1 < length rs" by (simp_all add: ms_def rs_def)
  have nth: "ms ! 1 = ''C00002''" "rs ! 1 = ''R00001_r''" by (simp_all add: ms_def rs_def)
  note t = index_maps_round_trip [OF b, unfolded sel]
  note tm = t [THEN conjunct2, THEN conjunct2, THEN conjunct1, THEN spec, THEN mp, OF len(1)]
  note tr = t [THEN conjunct2, THEN conjunct2, THEN conjunct2, THEN conjunct1, THEN spec, THEN mp,
      OF len(2)]
  from b tm tr show ?thesis
    unfolding nth unfolding df_def ms_def rs_def by (intro conjI) (erule conjunct1 conjunct2 | assumption)+
qed

section \<open>Net coefficients\<close>

text \<open>
  The two accumulation loops subtract, respectively add, the total coefficient of every
  identifier, and they keep the keys of the dictionary distinct.
\<close>

lemma dict_get_update:
  "dict_get (AList.update k v d) m dflt = (if m = k then v else dict_get d m dflt)"
  by (simp add: dict_get_def update_conv')

lemma reactants_loop_get:
  "reactants_loop ts st = Inr st' \<Longrightarrow> dict_get st' m 0 = dict_get st m 0 - total_coeff m ts"
proof (induction ts arbitrary: st)
  case Nil
  then show ?case by simp
next
  case (Cons t ts)
  show ?case
  proof (cases "parse_term t")
    case (Inl e)
    with Cons.prems show ?thesis by simp
  next
    case (Inr r)
    show ?thesis
    proof (cases r)
      case None
      with Inr Cons.prems have "reactants_loop ts st = Inr st'" by simp
      from Cons.IH [OF this] Inr None show ?thesis by simp
    next
      case (Some p)
      obtain met coeff where p: "p = (met, coeff)" by (cases p)
      from Inr Some p Cons.prems
      have "reactants_loop ts (AList.update met (dict_get st met 0 - coeff) st) = Inr st'"
        by simp
      from Cons.IH [OF this] Inr Some p show ?thesis by (simp add: dict_get_update)
    qed
  qed
qed

lemma products_loop_get:
  "products_loop ts st = Inr st' \<Longrightarrow> dict_get st' m 0 = dict_get st m 0 + total_coeff m ts"
proof (induction ts arbitrary: st)
  case Nil
  then show ?case by simp
next
  case (Cons t ts)
  show ?case
  proof (cases "parse_term t")
    case (Inl e)
    with Cons.prems show ?thesis by simp
  next
    case (Inr r)
    show ?thesis
    proof (cases r)
      case None
      with Inr Cons.prems have "products_loop ts st = Inr st'" by simp
      from Cons.IH [OF this] Inr None show ?thesis by simp
    next
      case (Some p)
      obtain met coeff where p: "p = (met, coeff)" by (cases p)
      from Inr Some p Cons.prems
      have "products_loop ts (AList.update met (dict_get st met 0 + coeff) st) = Inr st'"
        by simp
      from Cons.IH [OF this] Inr Some p show ?thesis by (simp add: dict_get_update)
    qed
  qed
qed

lemma reactants_loop_distinct:
  "reactants_loop ts st = Inr st' \<Longrightarrow> distinct (map fst st) \<Longrightarrow> distinct (map fst st')"
  by (induction ts arbitrary: st) (auto simp: distinct_update split: sum.splits option.splits)

lemma products_loop_distinct:
  "products_loop ts st = Inr st' \<Longrightarrow> distinct (map fst st) \<Longrightarrow> distinct (map fst st')"
  by (induction ts arbitrary: st) (auto simp: distinct_update split: sum.splits option.splits)

lemma drop_zero_facts:
  assumes "drop_zero st = (mets, coeffs)" and "distinct (map fst st)"
  shows "length mets = length coeffs" and "distinct mets" and "0 \<notin> set coeffs"
    and "zip mets coeffs = filter (\<lambda>(met, coeff). coeff \<noteq> 0) st"
    and "(m, c) \<in> set (zip mets coeffs) \<Longrightarrow> c = dict_get st m 0"
    and "m \<in> set mets \<Longrightarrow> dict_get st m 0 \<noteq> 0"
proof -
  let ?kept = "filter (\<lambda>(met, coeff). coeff \<noteq> 0) st"
  from assms(1) have m: "mets = map fst ?kept" and c: "coeffs = map snd ?kept"
    by (simp_all add: drop_zero_def Let_def)
  show "length mets = length coeffs" by (simp add: m c)
  show "distinct mets" using assms(2) unfolding m by (rule distinct_map_filter)
  show "0 \<notin> set coeffs" by (auto simp: c)
  show z: "zip mets coeffs = ?kept" by (simp add: m c zip_map_fst_snd)
  have look: "dict_get st k 0 = v" if "(k, v) \<in> set st" for k v
    using that assms(2) by (simp add: dict_get_def)
  show "c = dict_get st m 0" if "(m, c) \<in> set (zip mets coeffs)"
    using that look [of m c] by (simp add: z)
  show "dict_get st m 0 \<noteq> 0" if "m \<in> set mets"
  proof -
    from that obtain v where "(m, v) \<in> set ?kept" by (auto simp: m)
    then have "(m, v) \<in> set st" "v \<noteq> 0" by auto
    with look [of m v] show ?thesis by simp
  qed
qed

lemma parse_equation_cases:
  assumes "parse_equation equation = Inr (mets, coeffs)"
  obtains (none) "split_sides equation = Inr None" "mets = []" "coeffs = []"
  | (sides) lhs rhs st1 st2 where "split_sides equation = Inr (Some (lhs, rhs))"
      "reactants_loop (py_split '' + '' lhs) [] = Inr st1"
      "products_loop (py_split '' + '' rhs) st1 = Inr st2"
      "drop_zero st2 = (mets, coeffs)"
  using assms
  by (auto simp: parse_equation_def split: sum.splits option.splits prod.splits)

lemma parse_equation_shape:
  assumes "parse_equation equation = Inr (mets, coeffs)"
  shows "length mets = length coeffs \<and> distinct mets \<and> 0 \<notin> set coeffs"
  using assms
proof (cases rule: parse_equation_cases)
  case none
  then show ?thesis by simp
next
  case (sides lhs rhs st1 st2)
  have "distinct (map fst st2)"
    using products_loop_distinct [OF sides(3)] reactants_loop_distinct [OF sides(2)] by simp
  from drop_zero_facts(1-3) [OF sides(4) this] show ?thesis by simp
qed

text \<open>
  C5. Whenever the parser returns, its two lists have the same length, no identifier
  occurs twice and no coefficient is 0. An identifier whose total coefficient on the left
  side equals its total coefficient on the right side is not in the output at all, and
  every identifier that is in the output carries its net coefficient (right total minus
  left total), which is not 0.
\<close>

theorem cancellation_law:
  assumes "parse_equation equation = Inr (mets, coeffs)"
  shows "length mets = length coeffs \<and> distinct mets \<and> 0 \<notin> set coeffs
     \<and> (\<forall>lhs rhs m. split_sides equation = Inr (Some (lhs, rhs))
          \<longrightarrow> total_coeff m (py_split '' + '' lhs) = total_coeff m (py_split '' + '' rhs)
          \<longrightarrow> m \<notin> set mets)
     \<and> (\<forall>lhs rhs m c. split_sides equation = Inr (Some (lhs, rhs))
          \<longrightarrow> (m, c) \<in> set (zip mets coeffs)
          \<longrightarrow> c = total_coeff m (py_split '' + '' rhs) - total_coeff m (py_split '' + '' lhs)
              \<and> c \<noteq> 0)"
proof -
  note shape = parse_equation_shape [OF assms]
  have net: "m \<notin> set mets"
    if "split_sides equation = Inr (Some (lhs, rhs))"
      and "total_coeff m (py_split '' + '' lhs) = total_coeff m (py_split '' + '' rhs)"
    for lhs rhs m
    using assms
  proof (cases rule: parse_equation_cases)
    case none
    then show ?thesis by simp
  next
    case (sides lhs' rhs' st1 st2)
    with that(1) have eq: "lhs' = lhs" "rhs' = rhs" by simp_all
    have d: "distinct (map fst st2)"
      using products_loop_distinct [OF sides(3)] reactants_loop_distinct [OF sides(2)] by simp
    have "dict_get st2 m 0 = 0"
      using products_loop_get [OF sides(3), of m] reactants_loop_get [OF sides(2), of m] that(2)
      by (simp add: eq dict_get_def)
    with drop_zero_facts(6) [OF sides(4) d, of m] show ?thesis by blast
  qed
  have val: "c = total_coeff m (py_split '' + '' rhs) - total_coeff m (py_split '' + '' lhs) \<and> c \<noteq> 0"
    if "split_sides equation = Inr (Some (lhs, rhs))" and "(m, c) \<in> set (zip mets coeffs)"
    for lhs rhs m c
    using assms
  proof (cases rule: parse_equation_cases)
    case none
    with that(2) show ?thesis by simp
  next
    case (sides lhs' rhs' st1 st2)
    with that(1) have eq: "lhs' = lhs" "rhs' = rhs" by simp_all
    have d: "distinct (map fst st2)"
      using products_loop_distinct [OF sides(3)] reactants_loop_distinct [OF sides(2)] by simp
    have "dict_get st2 m 0 = total_coeff m (py_split '' + '' rhs) - total_coeff m (py_split '' + '' lhs)"
      using products_loop_get [OF sides(3), of m] reactants_loop_get [OF sides(2), of m]
      by (simp add: eq dict_get_def)
    moreover from that(2) have "c \<in> set coeffs" by (rule set_zip_rightD)
    with shape have "c \<noteq> 0" by auto
    ultimately show ?thesis using drop_zero_facts(5) [OF sides(4) d that(2)] by simp
  qed
  from shape net val show ?thesis by blast
qed

theorem cancellation_law_witness:
  "parse_equation ''C00001 + C00002 <=> C00001 + C00003'' = Inr ([''C00002'', ''C00003''], [- 1, 1])
   \<and> split_sides ''C00001 + C00002 <=> C00001 + C00003''
        = Inr (Some (''C00001 + C00002'', ''C00001 + C00003''))
   \<and> total_coeff ''C00001'' (py_split '' + '' ''C00001 + C00002'')
        = total_coeff ''C00001'' (py_split '' + '' ''C00001 + C00003'')
   \<and> ''C00001'' \<notin> set [''C00002'', ''C00003'']"
proof -
  have p: "parse_equation ''C00001 + C00002 <=> C00001 + C00003''
      = Inr ([''C00002'', ''C00003''], [- 1, 1])"
    by code_simp
  have s: "split_sides ''C00001 + C00002 <=> C00001 + C00003''
      = Inr (Some (''C00001 + C00002'', ''C00001 + C00003''))"
    by code_simp
  have tc: "total_coeff ''C00001'' (py_split '' + '' ''C00001 + C00002'')
      = total_coeff ''C00001'' (py_split '' + '' ''C00001 + C00003'')"
    by code_simp
  note absent = cancellation_law [OF p, THEN conjunct2, THEN conjunct2, THEN conjunct2,
      THEN conjunct1, THEN spec, THEN spec, THEN spec, THEN mp, THEN mp, OF s tc]
  from p s tc absent show ?thesis by (intro conjI)
qed

section \<open>Forward and reverse records\<close>

lemma negate_zip: "map (\<lambda>(m, c). (m, - c)) (zip mets coeffs) = zip mets (map uminus (coeffs :: int list))"
  by (simp add: zip_map2)

text \<open>
  C3, as the code has it. For an equation that contains \<^verbatim>\<open><=>\<close> and that the parser
  accepts with at least one metabolite, the pass of the loop body over that reaction, from
  any state of the run, stores exactly two records: \<^verbatim>\<open>{base_id}_f\<close> and then
  \<^verbatim>\<open>{base_id}_r\<close>, under different keys, all other records staying as they were. Both
  list the parsed metabolites in the parser's order; the forward record carries the parsed
  coefficients and the reverse record their negations. Run on that reaction alone, the
  loop ends with these two records and nothing else.
\<close>

theorem reversible_two_records:
  assumes "py_contains ''<=>'' eqn" and "parse_equation eqn = Inr (mets, coeffs)"
    and "mets \<noteq> []"
  shows "process_reaction rxn_id (Some eqn) st
       = Inr (st\<lparr>reaction_stoich :=
                    AList.update (rxn_id @ ''_r'') (zip mets (map uminus coeffs))
                      (AList.update (rxn_id @ ''_f'') (zip mets coeffs) (reaction_stoich st)),
                  all_metabolites := all_metabolites st \<union> set mets\<rparr>)
     \<and> (\<exists>st'. process_reaction rxn_id (Some eqn) st = Inr st'
          \<and> map_of (reaction_stoich st') (rxn_id @ ''_f'') = Some (zip mets coeffs)
          \<and> map_of (reaction_stoich st') (rxn_id @ ''_r'') = Some (zip mets (map uminus coeffs))
          \<and> fst ` set (reaction_stoich st')
              = {rxn_id @ ''_f'', rxn_id @ ''_r''} \<union> fst ` set (reaction_stoich st)
          \<and> (\<forall>k. k \<noteq> rxn_id @ ''_f'' \<longrightarrow> k \<noteq> rxn_id @ ''_r''
                \<longrightarrow> map_of (reaction_stoich st') k = map_of (reaction_stoich st) k))
     \<and> reactions_loop [(rxn_id, Some eqn)] \<lparr>reaction_stoich = [], all_metabolites = {}\<rparr>
       = Inr \<lparr>reaction_stoich = [(rxn_id @ ''_f'', zip mets coeffs),
                                 (rxn_id @ ''_r'', zip mets (map uminus coeffs))],
              all_metabolites = set mets\<rparr>
     \<and> length mets = length coeffs
     \<and> rxn_id @ ''_f'' \<noteq> rxn_id @ ''_r''"
proof -
  from parse_equation_shape [OF assms(2)]
  have len: "length mets = length coeffs" and d: "distinct mets" by simp_all
  from assms(1) have ne: "eqn \<noteq> []" by auto
  have f: "dict_of_pairs (zip mets coeffs) = zip mets coeffs"
    using len d by (intro dict_of_pairs_distinct) simp
  have r: "dict_of_pairs (map (\<lambda>(m, c). (m, - c)) (zip mets coeffs)) = zip mets (map uminus coeffs)"
    unfolding negate_zip using len d by (intro dict_of_pairs_distinct) simp
  have keys: "rxn_id @ ''_f'' \<noteq> rxn_id @ ''_r''" by simp
  define st' where "st' = st\<lparr>reaction_stoich :=
                    AList.update (rxn_id @ ''_r'') (zip mets (map uminus coeffs))
                      (AList.update (rxn_id @ ''_f'') (zip mets coeffs) (reaction_stoich st)),
                  all_metabolites := all_metabolites st \<union> set mets\<rparr>"
  have step: "process_reaction rxn_id (Some eqn) s = Inr s'"
    if "s' = s\<lparr>reaction_stoich :=
                    AList.update (rxn_id @ ''_r'') (zip mets (map uminus coeffs))
                      (AList.update (rxn_id @ ''_f'') (zip mets coeffs) (reaction_stoich s)),
                  all_metabolites := all_metabolites s \<union> set mets\<rparr>"
    for s s'
    unfolding process_reaction_def that using assms ne by (simp add: f r)
  have 1: "process_reaction rxn_id (Some eqn) st = Inr st'" by (rule step) (rule st'_def)
  have rs: "reaction_stoich st' = AList.update (rxn_id @ ''_r'') (zip mets (map uminus coeffs))
      (AList.update (rxn_id @ ''_f'') (zip mets coeffs) (reaction_stoich st))"
    by (simp add: st'_def)
  have 2: "map_of (reaction_stoich st') (rxn_id @ ''_f'') = Some (zip mets coeffs)"
    unfolding rs by (simp add: update_conv')
  have 3: "map_of (reaction_stoich st') (rxn_id @ ''_r'') = Some (zip mets (map uminus coeffs))"
    unfolding rs by (simp add: update_conv')
  have 4: "fst ` set (reaction_stoich st')
      = {rxn_id @ ''_f'', rxn_id @ ''_r''} \<union> fst ` set (reaction_stoich st)"
    unfolding rs by (auto simp: dom_update)
  have 5: "map_of (reaction_stoich st') k = map_of (reaction_stoich st) k"
    if "k \<noteq> rxn_id @ ''_f''" "k \<noteq> rxn_id @ ''_r''" for k
    unfolding rs using that by (simp add: update_conv')
  have "process_reaction rxn_id (Some eqn) \<lparr>reaction_stoich = [], all_metabolites = {}\<rparr>
       = Inr \<lparr>reaction_stoich = [(rxn_id @ ''_f'', zip mets coeffs),
                                 (rxn_id @ ''_r'', zip mets (map uminus coeffs))],
              all_metabolites = set mets\<rparr>"
    by (rule step) simp
  then have 6: "reactions_loop [(rxn_id, Some eqn)] \<lparr>reaction_stoich = [], all_metabolites = {}\<rparr>
       = Inr \<lparr>reaction_stoich = [(rxn_id @ ''_f'', zip mets coeffs),
                                 (rxn_id @ ''_r'', zip mets (map uminus coeffs))],
              all_metabolites = set mets\<rparr>"
    by simp
  from 1 2 3 4 5 have ex: "\<exists>st'. process_reaction rxn_id (Some eqn) st = Inr st'
          \<and> map_of (reaction_stoich st') (rxn_id @ ''_f'') = Some (zip mets coeffs)
          \<and> map_of (reaction_stoich st') (rxn_id @ ''_r'') = Some (zip mets (map uminus coeffs))
          \<and> fst ` set (reaction_stoich st')
              = {rxn_id @ ''_f'', rxn_id @ ''_r''} \<union> fst ` set (reaction_stoich st)
          \<and> (\<forall>k. k \<noteq> rxn_id @ ''_f'' \<longrightarrow> k \<noteq> rxn_id @ ''_r''
                \<longrightarrow> map_of (reaction_stoich st') k = map_of (reaction_stoich st) k)"
    by (intro exI [of _ st'] conjI allI impI)
  from 1 [unfolded st'_def] ex 6 len keys show ?thesis by (intro conjI)
qed

theorem reversible_two_records_witness:
  "py_contains ''<=>'' ''C00001 + C00002 <=> C00003''
   \<and> [''C00001'', ''C00002'', ''C00003''] \<noteq> []
   \<and> process_reaction ''R00001'' (Some ''C00001 + C00002 <=> C00003'')
        \<lparr>reaction_stoich = [(''R00002_f'', [(''C00001'', - 2), (''C00004'', 1)])],
         all_metabolites = {''C00001'', ''C00004''}\<rparr>
       = Inr (\<lparr>reaction_stoich = [(''R00002_f'', [(''C00001'', - 2), (''C00004'', 1)])],
               all_metabolites = {''C00001'', ''C00004''}\<rparr>
              \<lparr>reaction_stoich :=
                 AList.update (''R00001'' @ ''_r'')
                   (zip [''C00001'', ''C00002'', ''C00003''] (map uminus [- 1, - 1, 1]))
                   (AList.update (''R00001'' @ ''_f'')
                      (zip [''C00001'', ''C00002'', ''C00003''] [- 1, - 1, 1])
                      (reaction_stoich
                        \<lparr>reaction_stoich = [(''R00002_f'', [(''C00001'', - 2), (''C00004'', 1)])],
                         all_metabolites = {''C00001'', ''C00004''}\<rparr>)),
               all_metabolites :=
                 all_metabolites
                   \<lparr>reaction_stoich = [(''R00002_f'', [(''C00001'', - 2), (''C00004'', 1)])],
                    all_metabolites = {''C00001'', ''C00004''}\<rparr>
                 \<union> set [''C00001'', ''C00002'', ''C00003'']\<rparr>)
   \<and> reactions_loop [(''R00001'', Some ''C00001 + C00002 <=> C00003'')]
        \<lparr>reaction_stoich = [], all_metabolites = {}\<rparr>
       = Inr \<lparr>reaction_stoich =
                [(''R00001'' @ ''_f'', zip [''C00001'', ''C00002'', ''C00003''] [- 1, - 1, 1]),
                 (''R00001'' @ ''_r'', zip [''C00001'', ''C00002'', ''C00003''] (map uminus [- 1, - 1, 1]))],
              all_metabolites = set [''C00001'', ''C00002'', ''C00003'']\<rparr>"
proof -
  have c: "py_contains ''<=>'' ''C00001 + C00002 <=> C00003''" by code_simp
  have p: "parse_equation ''C00001 + C00002 <=> C00003''
      = Inr ([''C00001'', ''C00002'', ''C00003''], [- 1, - 1, 1])"
    by code_simp
  have n: "[''C00001'', ''C00002'', ''C00003''] \<noteq> []" by simp
  note t = reversible_two_records [OF c p n, of "''R00001''"]
  note t1 = t [of "\<lparr>reaction_stoich = [(''R00002_f'', [(''C00001'', - 2), (''C00004'', 1)])],
         all_metabolites = {''C00001'', ''C00004''}\<rparr>", THEN conjunct1]
  note t3 = t [THEN conjunct2, THEN conjunct2, THEN conjunct1]
  from c n t1 t3 show ?thesis by (intro conjI)
qed

text \<open>
  C3, as stated, fails for the reversible equation \<^verbatim>\<open>C00001 <=> C00001\<close>: the parse is
  empty, the forward record is skipped, and the pass stores one record, not two.
\<close>

theorem degenerate_reversible_one_record:
  "py_contains ''<=>'' ''C00001 <=> C00001''
   \<and> parse_equation ''C00001 <=> C00001'' = Inr ([], [])
   \<and> reactions_loop [(''R00001'', Some ''C00001 <=> C00001'')]
        \<lparr>reaction_stoich = [], all_metabolites = {}\<rparr>
      = Inr \<lparr>reaction_stoich = [(''R00001_r'', [])], all_metabolites = {}\<rparr>"
  by code_simp

section \<open>The assembler fails only where the parser fails\<close>

text \<open>
  Every identifier of a stored record is in \<^verbatim>\<open>all_metabolites\<close>, and every record
  key is a column label, so each assignment \<^verbatim>\<open>df.loc[met, rxn] = coeff\<close> finds its row
  and its column: once the first loop has run through, the matrix is returned. The only
  exception \<^verbatim>\<open>build_stoich_matrix\<close> can end with is the \<^verbatim>\<open>ValueError\<close> of the parser.
\<close>

lemma index_of_member: "x \<in> set xs \<Longrightarrow> \<exists>i. index_of x xs = Some i"
  by (induction xs) auto

lemma loc_set_ok:
  assumes "met \<in> set (df_index df)" and "rxn \<in> set (df_columns df)"
  shows "\<exists>df'. loc_set met rxn coeff df = Inr df'"
proof -
  from index_of_member [OF assms(1)] obtain i where i: "index_of met (df_index df) = Some i"
    by blast
  from index_of_member [OF assms(2)] obtain j where j: "index_of rxn (df_columns df) = Some j"
    by blast
  show ?thesis by (simp add: loc_set_def i j)
qed

lemma fill_column_ok:
  "rxn \<in> set (df_columns df) \<Longrightarrow> fst ` set rec \<subseteq> set (df_index df)
   \<Longrightarrow> \<exists>df'. fill_column rxn rec df = Inr df'"
proof (induction rec arbitrary: df)
  case Nil
  show ?case by simp
next
  case (Cons p rest)
  obtain met coeff where p: "p = (met, coeff)" by (cases p)
  from Cons.prems have "met \<in> set (df_index df)" by (simp add: p)
  from loc_set_ok [OF this Cons.prems(1)] obtain df1 where 1: "loc_set met rxn coeff df = Inr df1"
    by blast
  from loc_set_labels [OF 1] Cons.prems
  have "rxn \<in> set (df_columns df1)" "fst ` set rest \<subseteq> set (df_index df1)" by simp_all
  from Cons.IH [OF this] 1 show ?case by (simp add: p)
qed

lemma fill_matrix_ok:
  "fst ` set recs \<subseteq> set (df_columns df) \<Longrightarrow> (\<forall>(rxn, rec) \<in> set recs. fst ` set rec \<subseteq> set (df_index df))
   \<Longrightarrow> \<exists>df'. fill_matrix recs df = Inr df'"
proof (induction recs arbitrary: df)
  case Nil
  show ?case by simp
next
  case (Cons p rest)
  obtain rxn rec where p: "p = (rxn, rec)" by (cases p)
  from Cons.prems have "rxn \<in> set (df_columns df)" "fst ` set rec \<subseteq> set (df_index df)"
    by (simp_all add: p)
  from fill_column_ok [OF this] obtain df1 where 1: "fill_column rxn rec df = Inr df1" by blast
  from fill_column_labels [OF 1] Cons.prems
  have "fst ` set rest \<subseteq> set (df_columns df1)"
    "\<forall>(rxn, rec) \<in> set rest. fst ` set rec \<subseteq> set (df_index df1)" by simp_all
  from Cons.IH [OF this] 1 show ?case by (simp add: p)
qed

lemma dict_of_pairs_keys: "fst ` set (dict_of_pairs ps) = fst ` set ps"
proof -
  have "dom (map_of (dict_of_pairs ps)) = dom (map_of (rev ps))"
    by (simp only: map_of_dict_of_pairs)
  then show ?thesis by (simp add: dom_map_of_conv_image_fst)
qed

lemma zip_keys: "fst ` set (zip mets cs) \<subseteq> set mets"
  by (auto dest: set_zip_leftD)

lemma update_record_keys:
  assumes "\<forall>(rxn, rec) \<in> set al. fst ` set rec \<subseteq> A" and "fst ` set v \<subseteq> A"
  shows "\<forall>(rxn, rec) \<in> set (AList.update k v al). fst ` set rec \<subseteq> A"
  using assms by (induction al) auto

lemma process_reaction_keys:
  assumes "process_reaction rxn_id eqn st = Inr st'"
    and "finite (all_metabolites st)"
    and "\<forall>(rxn, rec) \<in> set (reaction_stoich st). fst ` set rec \<subseteq> all_metabolites st"
  shows "finite (all_metabolites st')
     \<and> (\<forall>(rxn, rec) \<in> set (reaction_stoich st'). fst ` set rec \<subseteq> all_metabolites st')"
proof (cases eqn)
  case None
  with assms show ?thesis by (simp add: process_reaction_def)
next
  case (Some e)
  show ?thesis
  proof (cases "e = []")
    case True
    with Some assms show ?thesis by (simp add: process_reaction_def)
  next
    case False
    with Some assms(1) obtain mets coeffs where pe: "parse_equation e = Inr (mets, coeffs)"
      by (auto simp: process_reaction_def split: sum.splits)
    let ?A = "all_metabolites st \<union> set mets"
    let ?f = "dict_of_pairs (zip mets coeffs)"
    let ?r = "dict_of_pairs (map (\<lambda>(m, c). (m, - c)) (zip mets coeffs))"
    have fin: "finite ?A" using assms(2) by simp
    have old: "\<forall>(rxn, rec) \<in> set (reaction_stoich st). fst ` set rec \<subseteq> ?A"
      using assms(3) by fastforce
    have kf: "fst ` set ?f \<subseteq> ?A"
      using zip_keys [of mets coeffs] by (auto simp: dict_of_pairs_keys)
    have kr: "fst ` set ?r \<subseteq> ?A"
      using zip_keys [of mets "map uminus coeffs"] by (auto simp: dict_of_pairs_keys negate_zip)
    note f = update_record_keys [OF old kf]
    note fr = update_record_keys [OF f kr]
    note r = update_record_keys [OF old kr]
    consider (both) "mets \<noteq> []" "py_contains ''<=>'' e"
      | (fwd) "mets \<noteq> []" "\<not> py_contains ''<=>'' e"
      | (rev) "mets = []" "py_contains ''<=>'' e"
      | (neither) "mets = []" "\<not> py_contains ''<=>'' e"
      by blast
    then show ?thesis
    proof cases
      case both
      with assms(1) Some False pe
      have "st' = st\<lparr>reaction_stoich := AList.update (rxn_id @ ''_r'') ?r
                (AList.update (rxn_id @ ''_f'') ?f (reaction_stoich st)),
              all_metabolites := ?A\<rparr>"
        by (simp add: process_reaction_def)
      with fin fr show ?thesis by simp
    next
      case fwd
      with assms(1) Some False pe
      have "st' = st\<lparr>reaction_stoich := AList.update (rxn_id @ ''_f'') ?f (reaction_stoich st),
              all_metabolites := ?A\<rparr>"
        by (simp add: process_reaction_def)
      with fin f show ?thesis by simp
    next
      case rev
      with assms(1) Some False pe
      have "st' = st\<lparr>reaction_stoich := AList.update (rxn_id @ ''_r'') ?r (reaction_stoich st)\<rparr>"
        by (auto simp: process_reaction_def)
      with assms(2) r rev(1) show ?thesis by simp
    next
      case neither
      with assms(1) Some False pe have "st' = st" by (simp add: process_reaction_def)
      with assms show ?thesis by simp
    qed
  qed
qed

lemma reactions_loop_keys:
  "reactions_loop fetched st = Inr st' \<Longrightarrow> finite (all_metabolites st)
   \<Longrightarrow> \<forall>(rxn, rec) \<in> set (reaction_stoich st). fst ` set rec \<subseteq> all_metabolites st
   \<Longrightarrow> finite (all_metabolites st')
     \<and> (\<forall>(rxn, rec) \<in> set (reaction_stoich st'). fst ` set rec \<subseteq> all_metabolites st')"
proof (induction fetched arbitrary: st)
  case Nil
  then show ?case by simp
next
  case (Cons p rest)
  obtain rxn_id eqn where p: "p = (rxn_id, eqn)" by (cases p)
  from Cons.prems(1) obtain st1 where 1: "process_reaction rxn_id eqn st = Inr st1"
    and 2: "reactions_loop rest st1 = Inr st'"
    by (auto simp: p split: sum.splits)
  from process_reaction_keys [OF 1 Cons.prems(2,3)]
  have "finite (all_metabolites st1)"
    "\<forall>(rxn, rec) \<in> set (reaction_stoich st1). fst ` set rec \<subseteq> all_metabolites st1"
    by simp_all
  from Cons.IH [OF 2 this] show ?case .
qed

lemma build_after_loop:
  assumes "reactions_loop fetched \<lparr>reaction_stoich = [], all_metabolites = {}\<rparr> = Inr st"
  shows "\<exists>df. build_stoich_matrix fetched = Inr df"
proof -
  have "finite (all_metabolites \<lparr>reaction_stoich = [], all_metabolites = {}\<rparr>)" by simp
  moreover have "\<forall>(rxn, rec) \<in> set (reaction_stoich \<lparr>reaction_stoich = [], all_metabolites = {}\<rparr>).
      fst ` set rec \<subseteq> all_metabolites \<lparr>reaction_stoich = [], all_metabolites = {}\<rparr>"
    by simp
  ultimately have inv: "finite (all_metabolites st)
     \<and> (\<forall>(rxn, rec) \<in> set (reaction_stoich st). fst ` set rec \<subseteq> all_metabolites st)"
    by (rule reactions_loop_keys [OF assms])
  then have fin: "finite (all_metabolites st)"
    and keys: "\<forall>(rxn, rec) \<in> set (reaction_stoich st). fst ` set rec \<subseteq> all_metabolites st"
    by (rule conjunct1, rule conjunct2)
  define df0 where
    "df0 = new_frame (sorted_list_of_set (all_metabolites st)) (map fst (reaction_stoich st))"
  have idx: "set (df_index df0) = all_metabolites st"
    using fin by (simp add: df0_def new_frame_def)
  have cols: "set (df_columns df0) = fst ` set (reaction_stoich st)"
    by (simp add: df0_def new_frame_def)
  have c: "fst ` set (reaction_stoich st) \<subseteq> set (df_columns df0)"
    unfolding cols by (rule subset_refl)
  have k: "\<forall>(rxn, rec) \<in> set (reaction_stoich st). fst ` set rec \<subseteq> set (df_index df0)"
    unfolding idx by (rule keys)
  from fill_matrix_ok [OF c k] obtain df where "fill_matrix (reaction_stoich st) df0 = Inr df" ..
  with assms have "build_stoich_matrix fetched = Inr df"
    by (simp add: build_stoich_matrix_def df0_def)
  then show ?thesis ..
qed

lemma parse_term_error: "parse_term t = Inl e \<Longrightarrow> e = ValueError"
  by (auto simp: parse_term_def Let_def py_int_def split: if_splits sum.splits)

lemma reactants_loop_error: "reactants_loop ts st = Inl e \<Longrightarrow> e = ValueError"
proof (induction ts arbitrary: st)
  case Nil
  then show ?case by simp
next
  case (Cons t ts)
  show ?case
  proof (cases "parse_term t")
    case (Inl e')
    with Cons.prems have "e = e'" by simp
    with parse_term_error [OF Inl] show ?thesis by simp
  next
    case (Inr r)
    show ?thesis
    proof (cases r)
      case None
      with Inr Cons.prems have "reactants_loop ts st = Inl e" by simp
      then show ?thesis by (rule Cons.IH)
    next
      case (Some p)
      obtain met coeff where p: "p = (met, coeff)" by (cases p)
      from Inr Some p Cons.prems
      have "reactants_loop ts (AList.update met (dict_get st met 0 - coeff) st) = Inl e" by simp
      then show ?thesis by (rule Cons.IH)
    qed
  qed
qed

lemma products_loop_error: "products_loop ts st = Inl e \<Longrightarrow> e = ValueError"
proof (induction ts arbitrary: st)
  case Nil
  then show ?case by simp
next
  case (Cons t ts)
  show ?case
  proof (cases "parse_term t")
    case (Inl e')
    with Cons.prems have "e = e'" by simp
    with parse_term_error [OF Inl] show ?thesis by simp
  next
    case (Inr r)
    show ?thesis
    proof (cases r)
      case None
      with Inr Cons.prems have "products_loop ts st = Inl e" by simp
      then show ?thesis by (rule Cons.IH)
    next
      case (Some p)
      obtain met coeff where p: "p = (met, coeff)" by (cases p)
      from Inr Some p Cons.prems
      have "products_loop ts (AList.update met (dict_get st met 0 + coeff) st) = Inl e" by simp
      then show ?thesis by (rule Cons.IH)
    qed
  qed
qed

lemma unpack2_error: "unpack2 parts = Inl e \<Longrightarrow> e = ValueError"
  by (simp add: unpack2_def split: list.splits)

lemma split_sides_error: "split_sides equation = Inl e \<Longrightarrow> e = ValueError"
proof -
  have m: "e = ValueError" if "map_sum id Some (unpack2 parts) = Inl e" for parts
    using that unpack2_error [of parts e] by (cases "unpack2 parts") simp_all
  assume "split_sides equation = Inl e"
  then show ?thesis
    by (auto simp: split_sides_def dest: m split: if_splits)
qed

lemma parse_equation_error:
  assumes "parse_equation equation = Inl e"
  shows "e = ValueError"
proof (cases "split_sides equation")
  case (Inl e')
  with assms have "e = e'" by (simp add: parse_equation_def)
  with split_sides_error [OF Inl] show ?thesis by simp
next
  case (Inr sides)
  show ?thesis
  proof (cases sides)
    case None
    with Inr assms show ?thesis by (simp add: parse_equation_def)
  next
    case (Some p)
    obtain lhs rhs where p: "p = (lhs, rhs)" by (cases p)
    show ?thesis
    proof (cases "reactants_loop (py_split '' + '' lhs) []")
      case (Inl e')
      with Inr Some p assms have "e = e'" by (simp add: parse_equation_def)
      with reactants_loop_error [OF Inl] show ?thesis by simp
    next
      case st1: (Inr st1)
      show ?thesis
      proof (cases "products_loop (py_split '' + '' rhs) st1")
        case (Inl e')
        with Inr Some p st1 assms have "e = e'" by (simp add: parse_equation_def)
        with products_loop_error [OF Inl] show ?thesis by simp
      next
        case st2: (Inr st2)
        with Inr Some p st1 assms show ?thesis by (simp add: parse_equation_def)
      qed
    qed
  qed
qed

lemma process_reaction_error:
  assumes "process_reaction rxn_id eqn st = Inl e"
  shows "e = ValueError"
proof (cases eqn)
  case None
  with assms show ?thesis by (simp add: process_reaction_def)
next
  case (Some eq)
  show ?thesis
  proof (cases "parse_equation eq")
    case (Inl e')
    with assms Some have "e = e'" by (simp add: process_reaction_def split: if_splits)
    with parse_equation_error [OF Inl] show ?thesis by simp
  next
    case (Inr r)
    with assms Some show ?thesis
      by (simp add: process_reaction_def Let_def split: if_splits prod.splits)
  qed
qed

lemma reactions_loop_error: "reactions_loop fetched st = Inl e \<Longrightarrow> e = ValueError"
proof (induction fetched arbitrary: st)
  case Nil
  then show ?case by simp
next
  case (Cons p rest)
  obtain rxn_id eqn where p: "p = (rxn_id, eqn)" by (cases p)
  show ?case
  proof (cases "process_reaction rxn_id eqn st")
    case (Inl e')
    with Cons.prems p process_reaction_error [OF Inl] show ?thesis by simp
  next
    case (Inr st1)
    with Cons.prems p have "reactions_loop rest st1 = Inl e" by simp
    then show ?thesis by (rule Cons.IH)
  qed
qed

lemma build_only_ValueError: "build_stoich_matrix fetched = Inl e \<Longrightarrow> e = ValueError"
proof (cases "reactions_loop fetched \<lparr>reaction_stoich = [], all_metabolites = {}\<rparr>")
  case (Inl e')
  assume "build_stoich_matrix fetched = Inl e"
  with Inl have "e = e'" by (simp add: build_stoich_matrix_def)
  with reactions_loop_error [OF Inl] show ?thesis by simp
next
  case (Inr st)
  assume b: "build_stoich_matrix fetched = Inl e"
  from build_after_loop [OF Inr] b show ?thesis by auto
qed

end
